theory Spec2Isabelle
  imports Complex_Main "HOL-Library.Sublist"
begin

section \<open>Numbers of the generator\<close>

text \<open>
  The generator \<^verbatim>\<open>decay-gen.py\<close> computes with binary64 numbers (Python floats and
  numpy arrays of them, with numpy's warnings switched off, so that a division by zero
  yields an infinity or a not-a-number instead of raising). The model keeps the special
  values, on which the control flow of the program depends, and computes the finite values
  exactly: \<open>Fin x\<close> is the finite number \<open>x\<close>, \<open>PInf\<close> and \<open>NInf\<close> are the two
  infinities and \<open>NaN\<close> is not-a-number. Rounding, overflow and underflow of finite
  results are outside the model, and zero carries no sign: a division of a nonzero number
  by zero takes the sign of the numerator, as it does for the divisor \<open>+0.0\<close>.
\<close>

datatype fl = Fin real | PInf | NInf | NaN

fun isnan :: "fl \<Rightarrow> bool" where
  "isnan NaN = True"
| "isnan _ = False"

fun isinf :: "fl \<Rightarrow> bool" where
  "isinf PInf = True"
| "isinf NInf = True"
| "isinf _ = False"

fun fneg :: "fl \<Rightarrow> fl" where
  "fneg (Fin x) = Fin (- x)"
| "fneg PInf = NInf"
| "fneg NInf = PInf"
| "fneg NaN = NaN"

fun fadd :: "fl \<Rightarrow> fl \<Rightarrow> fl" where
  "fadd NaN _ = NaN"
| "fadd _ NaN = NaN"
| "fadd (Fin x) (Fin y) = Fin (x + y)"
| "fadd PInf NInf = NaN"
| "fadd NInf PInf = NaN"
| "fadd PInf _ = PInf"
| "fadd _ PInf = PInf"
| "fadd NInf _ = NInf"
| "fadd _ NInf = NInf"

definition fsub :: "fl \<Rightarrow> fl \<Rightarrow> fl" where
  "fsub a b = fadd a (fneg b)"

fun fmul :: "fl \<Rightarrow> fl \<Rightarrow> fl" where
  "fmul NaN _ = NaN"
| "fmul _ NaN = NaN"
| "fmul (Fin x) (Fin y) = Fin (x * y)"
| "fmul (Fin x) PInf = (if x = 0 then NaN else if 0 < x then PInf else NInf)"
| "fmul (Fin x) NInf = (if x = 0 then NaN else if 0 < x then NInf else PInf)"
| "fmul PInf (Fin y) = (if y = 0 then NaN else if 0 < y then PInf else NInf)"
| "fmul NInf (Fin y) = (if y = 0 then NaN else if 0 < y then NInf else PInf)"
| "fmul PInf PInf = PInf"
| "fmul PInf NInf = NInf"
| "fmul NInf PInf = NInf"
| "fmul NInf NInf = PInf"

fun fdiv :: "fl \<Rightarrow> fl \<Rightarrow> fl" where
  "fdiv NaN _ = NaN"
| "fdiv _ NaN = NaN"
| "fdiv (Fin x) (Fin y) =
     (if y = 0 then (if x = 0 then NaN else if 0 < x then PInf else NInf)
      else Fin (x / y))"
| "fdiv (Fin x) PInf = Fin 0"
| "fdiv (Fin x) NInf = Fin 0"
| "fdiv PInf (Fin y) = (if 0 \<le> y then PInf else NInf)"
| "fdiv NInf (Fin y) = (if 0 \<le> y then NInf else PInf)"
| "fdiv _ _ = NaN"

fun flt :: "fl \<Rightarrow> fl \<Rightarrow> bool" where
  "flt NaN _ = False"
| "flt _ NaN = False"
| "flt (Fin x) (Fin y) = (x < y)"
| "flt NInf NInf = False"
| "flt NInf _ = True"
| "flt PInf _ = False"
| "flt (Fin x) PInf = True"
| "flt (Fin x) NInf = False"

definition fgt :: "fl \<Rightarrow> fl \<Rightarrow> bool" where
  "fgt a b = flt b a"

fun feq :: "fl \<Rightarrow> fl \<Rightarrow> bool" where
  "feq NaN _ = False"
| "feq _ NaN = False"
| "feq a b = (a = b)"

text \<open>\<^verbatim>\<open>sum()\<close> and \<^verbatim>\<open>prod()\<close> of numpy: the empty sum is 0, the empty product 1.\<close>

definition fsum :: "fl list \<Rightarrow> fl" where
  "fsum xs = foldl fadd (Fin 0) xs"

definition fprod :: "fl list \<Rightarrow> fl" where
  "fprod xs = foldl fmul (Fin 1) xs"


section \<open>The nuclear-data provider and the correction layer\<close>

text \<open>
  A nuclide identity is a Python integer, a chain a tuple of them. The functions that the
  generator imports from \<^verbatim>\<open>pyne.data\<close> are not part of the program: they are the
  fields of a record that every function of the model takes as a parameter. A Python set
  of nuclides is a list in the order in which the set is iterated.
\<close>

type_synonym nuc = int
type_synonym chain = "nuc list"

datatype error = IndexError | ZeroDivisionError | RecursionError

record provider =
  half_life :: "nuc \<Rightarrow> fl"
  decay_const :: "nuc \<Rightarrow> fl"
  fpyield :: "nuc \<Rightarrow> nuc \<Rightarrow> fl"
  data_branch_ratio :: "nuc \<Rightarrow> nuc \<Rightarrow> fl"
  data_decay_children :: "nuc \<Rightarrow> nuc list"

text \<open>The dictionary \<^verbatim>\<open>special_cases\<close> of \<^verbatim>\<open>_branch_ratio\<close>.\<close>

definition special_cases_br :: "((nuc \<times> nuc) \<times> fl) list" where
  "special_cases_br =
    [((451040000, 461040000), Fin 0.9955),
     ((451040000, 441040000), Fin 0.0045),
     ((521270000, 531270000), Fin 1),
     ((471100001, 471100000), fsub (Fin 1) (Fin 0.9867)),
     ((491190001, 491190000), fsub (Fin 1) (Fin 0.956)),
     ((511260001, 511260000), Fin 0.14),
     ((320770001, 320770000), Fin 0.19),
     ((360850001, 360850000), fsub (Fin 1) (Fin 0.788)),
     ((711770001, 711770000), Fin 0.217),
     ((461110001, 461110000), Fin 0.73),
     ((842110001, 842110000), Fin 0.0002),
     ((521290001, 531290000), Fin 0.63)]"

text \<open>\<^verbatim>\<open>_branch_ratio(f)\<close>: the closure \<^verbatim>\<open>br\<close> it returns.\<close>

definition wrap_branch_ratio :: "(nuc \<Rightarrow> nuc \<Rightarrow> fl) \<Rightarrow> nuc \<Rightarrow> nuc \<Rightarrow> fl" where
  "wrap_branch_ratio f x y =
    (case map_of special_cases_br (x, y) of Some v \<Rightarrow> v | None \<Rightarrow> f x y)"

text \<open>The dictionary \<^verbatim>\<open>special_cases\<close> of \<^verbatim>\<open>_decay_children\<close>.\<close>

definition special_cases_dc :: "(nuc \<times> nuc list) list" where
  "special_cases_dc =
    [(451040000, [441040000, 461040000]),
     (521270000, [531270000])]"

text \<open>\<^verbatim>\<open>_decay_children(f)\<close>: the closure \<^verbatim>\<open>dc\<close> it returns.\<close>

definition wrap_decay_children :: "(nuc \<Rightarrow> nuc list) \<Rightarrow> nuc \<Rightarrow> nuc list" where
  "wrap_decay_children f x =
    (case map_of special_cases_dc x of Some s \<Rightarrow> s | None \<Rightarrow> f x)"

text \<open>The two module-level names after they have been rebound to the wrapped functions.\<close>

definition branch_ratio :: "provider \<Rightarrow> nuc \<Rightarrow> nuc \<Rightarrow> fl" where
  "branch_ratio P = wrap_branch_ratio (data_branch_ratio P)"

definition decay_children :: "provider \<Rightarrow> nuc \<Rightarrow> nuc list" where
  "decay_children P = wrap_decay_children (data_decay_children P)"

section \<open>The chain enumerator\<close>

text \<open>
  The set comprehension of \<^verbatim>\<open>genchains\<close>: the children of \<open>x\<close> whose fission product
  yield from \<open>x\<close> compares equal to \<^verbatim>\<open>0.0\<close>, each once.
\<close>

definition kids :: "provider \<Rightarrow> nuc \<Rightarrow> nuc list" where
  "kids P x = remdups (filter (\<lambda>c. feq (Fin 0) (fpyield P x c)) (decay_children P x))"

text \<open>
  \<^verbatim>\<open>genchains\<close> recurses once for every child, inside the loop over the children, and has
  no other bound than the recursion limit of the interpreter. The first argument is the
  number of nested calls that are still allowed; a call beyond it raises
  \<^verbatim>\<open>RecursionError\<close>. The list \<^verbatim>\<open>chains\<close> is appended to in place and handed on; the
  model passes it along. \<^verbatim>\<open>chains[-1]\<close> and \<^verbatim>\<open>chain[-1]\<close> raise on an empty sequence.
\<close>

fun genchains :: "nat \<Rightarrow> provider \<Rightarrow> chain list \<Rightarrow> error + chain list" where
  "genchains 0 P chs = Inl RecursionError"
| "genchains (Suc n) P chs =
    (if chs = [] then Inl IndexError
     else let chain = last chs in
       if chain = [] then Inl IndexError
       else fold (\<lambda>child acc. case acc of
                     Inl e \<Rightarrow> Inl e
                   | Inr chs' \<Rightarrow> genchains n P (chs' @ [chain @ [child] ]))
              (kids P (last chain)) (Inr chs))"

text \<open>The enumeration from a seed returns, for some recursion limit.\<close>

definition genchains_returns :: "provider \<Rightarrow> nuc \<Rightarrow> bool" where
  "genchains_returns P seed = (\<exists>n out. genchains n P [ [seed] ] = Inr out)"

text \<open>
  \<open>depth_le P d x\<close>: no sequence of filtered children that starts at \<open>x\<close> has more than
  \<open>d\<close> steps. \<open>is_path P c\<close>: every element of \<open>c\<close> but the first is a filtered child
  of the one before it.
\<close>

fun depth_le :: "provider \<Rightarrow> nat \<Rightarrow> nuc \<Rightarrow> bool" where
  "depth_le P 0 x = (kids P x = [])"
| "depth_le P (Suc d) x = list_all (depth_le P d) (kids P x)"

fun is_path :: "provider \<Rightarrow> chain \<Rightarrow> bool" where
  "is_path P [] = True"
| "is_path P [x] = True"
| "is_path P (x # y # r) = (y \<in> set (kids P x) \<and> is_path P (y # r))"

section \<open>The coefficient solver\<close>

text \<open>\<^verbatim>\<open>ends_stable = (dc[-1] < 1e-16)\<close>\<close>

definition ends_stable :: "fl list \<Rightarrow> bool" where
  "ends_stable dc = flt (last dc) (Fin (1 / 10 ^ 16))"

text \<open>\<^verbatim>\<open>dc[:, np.newaxis] / (dc[:, np.newaxis] - dc)\<close>: entry \<open>i, j\<close> is
  \<open>dc\<^sub>i / (dc\<^sub>i - dc\<^sub>j)\<close>. A matrix is the list of its rows.\<close>

definition cij_ratio :: "fl list \<Rightarrow> fl list list" where
  "cij_ratio dc = map (\<lambda>di. map (\<lambda>dj. fdiv di (fsub di dj)) dc) dc"

text \<open>\<^verbatim>\<open>cij[mask, mask] = 1.0\<close> with a mask of ones: the diagonal.\<close>

definition set_diagonal :: "fl list list \<Rightarrow> fl list list" where
  "set_diagonal m = map (\<lambda>i. (m ! i)[i := Fin 1]) [0..<length m]"

text \<open>The matrix after \<^verbatim>\<open>cij[-1] = -1.0 / dc\<close> (for a stable end) and the diagonal.\<close>

definition cij :: "fl list \<Rightarrow> fl list list" where
  "cij dc = set_diagonal
     (if ends_stable dc then (cij_ratio dc)[length dc - 1 := map (fdiv (Fin (- 1))) dc]
      else cij_ratio dc)"

text \<open>\<^verbatim>\<open>cij.prod(axis=0)\<close>: entry \<open>j\<close> is the product of the entries \<open>i, j\<close> over all rows
  \<open>i\<close>.\<close>

definition prod_axis0 :: "fl list list \<Rightarrow> fl list" where
  "prod_axis0 m = map (\<lambda>j. fprod (map (\<lambda>row. row ! j) m)) [0..<length m]"

definition ci :: "fl list \<Rightarrow> fl list" where
  "ci dc = prod_axis0 (cij dc)"

text \<open>The array \<^verbatim>\<open>k\<close> before the branch ratios are applied.\<close>

definition amplitudes :: "fl list \<Rightarrow> fl list" where
  "amplitudes dc =
    (if ends_stable dc then (map2 fmul dc (ci dc))[length dc - 1 := Fin 1]
     else map2 fmul (map (\<lambda>d. fdiv d (last dc)) dc) (ci dc))"

text \<open>\<^verbatim>\<open>np.prod([branch_ratio(p, c) for p, c in zip(chain[:-1], chain[1:])])\<close>\<close>

definition gamma :: "provider \<Rightarrow> chain \<Rightarrow> fl" where
  "gamma P chain = fprod (map (\<lambda>(p, c). branch_ratio P p c) (zip (butlast chain) (tl chain)))"

text \<open>The half-life filter, before and after the test \<^verbatim>\<open>mask.sum() < 2\<close>.\<close>

definition hl_mask :: "bool \<Rightarrow> fl list \<Rightarrow> bool list" where
  "hl_mask st hl =
    (if st
     then map (\<lambda>h. fgt (fdiv h (fsum (butlast hl))) (Fin (1 / 10 ^ 8))) (butlast hl) @ [True]
     else map (\<lambda>h. fgt (fdiv h (fsum hl)) (Fin (1 / 10 ^ 8))) hl)"

definition final_mask :: "bool \<Rightarrow> fl list \<Rightarrow> bool list" where
  "final_mask st hl =
    (let msk = hl_mask st hl
     in if length (filter id msk) < 2 then replicate (length hl) True else msk)"

text \<open>Indexing an array with a boolean array of the same length.\<close>

definition select :: "bool list \<Rightarrow> 'a list \<Rightarrow> 'a list" where
  "select msk xs = map snd (filter fst (zip msk xs))"

text \<open>
  \<^verbatim>\<open>k_a(chain)\<close>. The result \<open>Inr None\<close> is the pair \<^verbatim>\<open>(None, None)\<close>. On the empty
  chain the test for not-a-number passes and \<^verbatim>\<open>dc[-1]\<close> raises.
\<close>

definition k_a :: "provider \<Rightarrow> chain \<Rightarrow> error + (fl list \<times> fl list) option" where
  "k_a P chain =
    (let hl = map (half_life P) chain;
         a = map (fdiv (Fin (- 1))) hl;
         dc = map (decay_const P) chain
     in if list_ex isnan dc then Inr None
        else if chain = [] then Inl IndexError
        else let k = amplitudes dc in
          if list_ex isinf k then Inr None
          else let g = gamma P chain in
            if feq g (Fin 0) then Inr None
            else let k' = map (\<lambda>x. fmul x g) k;
                     msk = final_mask (ends_stable dc) hl
                 in Inr (Some (select msk k', select msk a)))"

section \<open>The expression synthesizer\<close>

text \<open>
  The format strings of the generator. The presentation type \<^verbatim>\<open>e\<close> of
  \<^verbatim>\<open>str.format\<close>, which prints a number in scientific notation, is the parameter
  \<open>fmt\<close>.
\<close>

definition EXP_EXPR :: "(fl \<Rightarrow> string) \<Rightarrow> fl \<Rightarrow> string" where
  "EXP_EXPR fmt a = ''exp2('' @ fmt a @ ''*t)''"

definition KEXP_EXPR :: "(fl \<Rightarrow> string) \<Rightarrow> fl \<Rightarrow> fl \<Rightarrow> string" where
  "KEXP_EXPR fmt k a = fmt k @ ''*'' @ EXP_EXPR fmt a"

definition CHAIN_EXPR :: "string \<Rightarrow> string" where
  "CHAIN_EXPR terms = ''(it->second) * ('' @ terms @ '')''"

definition kexpexpr :: "(fl \<Rightarrow> string) \<Rightarrow> fl \<Rightarrow> fl \<Rightarrow> string" where
  "kexpexpr fmt k a = (if feq k (Fin 1) then EXP_EXPR fmt a else KEXP_EXPR fmt k a)"

text \<open>\<^verbatim>\<open>sep.join(xs)\<close>\<close>

fun join :: "string \<Rightarrow> string list \<Rightarrow> string" where
  "join sep [] = []"
| "join sep [x] = x"
| "join sep (x # y # r) = x @ sep @ join sep (y # r)"

text \<open>The body of the loop of \<^verbatim>\<open>chainexpr\<close>.\<close>

definition chain_term :: "(fl \<Rightarrow> string) \<Rightarrow> fl \<Rightarrow> fl \<Rightarrow> string" where
  "chain_term fmt k_i a_i =
    (if feq k_i (Fin 1) \<and> feq a_i (Fin 0) then ''1.0'' else kexpexpr fmt k_i a_i)"

text \<open>
  \<^verbatim>\<open>chainexpr(chain)\<close>. For a chain of one nuclide the half-life is a Python float, and
  dividing by a Python float that is zero raises.
\<close>

definition chainexpr :: "(fl \<Rightarrow> string) \<Rightarrow> provider \<Rightarrow> chain \<Rightarrow> error + string option" where
  "chainexpr fmt P chain =
    (if chain = [] then Inl IndexError
     else if length chain = 1 then
       (if half_life P (last chain) = Fin 0 then Inl ZeroDivisionError
        else Inr (Some (CHAIN_EXPR (EXP_EXPR fmt (fdiv (Fin (- 1)) (half_life P (last chain)))))))
     else case k_a P chain of
            Inl e \<Rightarrow> Inl e
          | Inr None \<Rightarrow> Inr None
          | Inr (Some (k, a)) \<Rightarrow>
              Inr (Some (CHAIN_EXPR (join '' + '' (map2 (chain_term fmt) k a)))))"

section \<open>Sample data\<close>

text \<open>
  A provider with the chain \<open>1 \<rightarrow> 2 \<rightarrow> 3\<close>: the decay constants are 1, 2 and 0 (nuclide
  3 is stable), the half-lives are \<open>ln 2\<close> divided by them, every branch ratio is 1 and
  no fission yield is recorded.
\<close>

definition sample :: provider where
  "sample = \<lparr>
     half_life = (\<lambda>n. if n = 1 then Fin (ln 2) else if n = 2 then Fin (ln 2 / 2) else PInf),
     decay_const = (\<lambda>n. if n = 1 then Fin 1 else if n = 2 then Fin 2 else Fin 0),
     fpyield = (\<lambda>x y. Fin 0),
     data_branch_ratio = (\<lambda>x y. Fin 1),
     data_decay_children = (\<lambda>n. if n = 1 then [2] else if n = 2 then [3] else []) \<rparr>"

text \<open>A provider in which two nuclides decay into each other and no fission yield is
  recorded, as for a pair of isomers.\<close>

definition cyclic :: provider where
  "cyclic = \<lparr>
     half_life = (\<lambda>n. Fin (ln 2)),
     decay_const = (\<lambda>n. Fin 1),
     fpyield = (\<lambda>x y. Fin 0),
     data_branch_ratio = (\<lambda>x y. Fin 1),
     data_decay_children = (\<lambda>n. if n = 1 then [2] else if n = 2 then [1] else []) \<rparr>"

text \<open>A provider whose third nuclide outlives the other two by nine orders of magnitude.\<close>

definition longlived :: provider where
  "longlived = \<lparr>
     half_life = (\<lambda>n. if n = 1 then Fin (ln 2) else if n = 2 then Fin (ln 2 * 2)
                     else Fin (ln 2 * 10 ^ 9)),
     decay_const = (\<lambda>n. if n = 1 then Fin 1 else if n = 2 then Fin (1 / 2)
                       else Fin (1 / 10 ^ 9)),
     fpyield = (\<lambda>x y. Fin 0),
     data_branch_ratio = (\<lambda>x y. Fin 1),
     data_decay_children = (\<lambda>n. if n = 1 then [2] else if n = 2 then [3] else []) \<rparr>"

text \<open>A provider that answers every query about branch ratios and children with a
  value that no correction table contains.\<close>

definition stub :: provider where
  "stub = \<lparr>
     half_life = (\<lambda>n. Fin 1),
     decay_const = (\<lambda>n. Fin (ln 2)),
     fpyield = (\<lambda>x y. Fin 0),
     data_branch_ratio = (\<lambda>x y. Fin 42),
     data_decay_children = (\<lambda>n. [7]) \<rparr>"

section \<open>Reference definitions\<close>

text \<open>
  The coefficients as the specification words them, to be compared with \<open>ci\<close>: entry
  \<open>i\<close> is the product over row \<open>i\<close> of the matrix, the diagonal left out.
\<close>

definition ci_by_rows :: "fl list \<Rightarrow> fl list" where
  "ci_by_rows dc =
    map (\<lambda>i. fprod (map (\<lambda>j. cij dc ! i ! j) (filter (\<lambda>j. j \<noteq> i) [0..<length dc])))
      [0..<length dc]"

text \<open>
  The value at time \<open>t\<close> of a sum of emitted terms \<^verbatim>\<open>k*exp2(a*t)\<close> with finite \<open>k\<close>
  and \<open>a\<close>, where \<^verbatim>\<open>exp2\<close> is the exponential function to the base 2 of the language
  in which the terms are written.
\<close>

definition exp2_terms :: "(real \<times> real) list \<Rightarrow> real \<Rightarrow> real" where
  "exp2_terms ka t = sum_list (map (\<lambda>(k, a). k * 2 powr (a * t)) ka)"

section \<open>Properties of the chain enumerator\<close>

subsection \<open>A loop that stops at the first error\<close>

lemma fold_sum_Inl:
  "fold (\<lambda>c acc. case acc of Inl e \<Rightarrow> Inl e | Inr x \<Rightarrow> f c x) cs (Inl e) = Inl e"
  by (induction cs) simp_all

lemma fold_sum_invariant:
  assumes "fold (\<lambda>c acc. case acc of Inl e \<Rightarrow> Inl e | Inr x \<Rightarrow> f c x) cs (Inr a) = Inr out"
    and "I a"
    and "\<And>c x y. c \<in> set cs \<Longrightarrow> I x \<Longrightarrow> f c x = Inr y \<Longrightarrow> I y"
  shows "I out"
  using assms
proof (induction cs arbitrary: a)
  case Nil
  then show ?case by simp
next
  case (Cons c cs)
  show ?case
  proof (cases "f c a")
    case (Inl e)
    with Cons.prems(1) show ?thesis by (simp add: fold_sum_Inl)
  next
    case (Inr y)
    from Cons.prems(3) [OF _ Cons.prems(2) Inr] have y: "I y" by simp
    from Inr Cons.prems(1)
    have "fold (\<lambda>c acc. case acc of Inl e \<Rightarrow> Inl e | Inr x \<Rightarrow> f c x) cs (Inr y) = Inr out"
      by simp
    then show ?thesis
    proof (rule Cons.IH [OF _ y])
      fix c' x z
      assume "c' \<in> set cs" "I x" "f c' x = Inr z"
      then show "I z" using Cons.prems(3) [of c' x z] by simp
    qed
  qed
qed

lemma fold_sum_calls:
  assumes "fold (\<lambda>c acc. case acc of Inl e \<Rightarrow> Inl e | Inr x \<Rightarrow> f c x) cs (Inr a) = Inr out"
    and "c \<in> set cs"
  shows "\<exists>x y. f c x = Inr y"
  using assms
proof (induction cs arbitrary: a)
  case Nil
  then show ?case by simp
next
  case (Cons c' cs)
  show ?case
  proof (cases "f c' a")
    case (Inl e)
    with Cons.prems(1) show ?thesis by (simp add: fold_sum_Inl)
  next
    case (Inr y)
    show ?thesis
    proof (cases "c = c'")
      case True
      with Inr show ?thesis by blast
    next
      case False
      with Cons.prems(2) have "c \<in> set cs" by simp
      moreover from Inr Cons.prems(1)
      have "fold (\<lambda>c acc. case acc of Inl e \<Rightarrow> Inl e | Inr x \<Rightarrow> f c x) cs (Inr y) = Inr out"
        by simp
      ultimately show ?thesis using Cons.IH by blast
    qed
  qed
qed

lemma fold_sum_total:
  assumes "\<And>c x. c \<in> set cs \<Longrightarrow> \<exists>y. f c x = Inr y"
  shows "\<exists>out. fold (\<lambda>c acc. case acc of Inl e \<Rightarrow> Inl e | Inr x \<Rightarrow> f c x) cs (Inr a) = Inr out"
  using assms
proof (induction cs arbitrary: a)
  case Nil
  then show ?case by simp
next
  case (Cons c cs)
  from Cons.prems obtain y where "f c a = Inr y" by (meson list.set_intros(1))
  then show ?case using Cons.IH [of y] Cons.prems by simp
qed

subsection \<open>Shape of the result, and the depth a returning call implies\<close>

lemma genchains_Suc_Inr:
  assumes "genchains (Suc n) P chs = Inr out"
  shows "chs \<noteq> []" and "last chs \<noteq> []"
    and "fold (\<lambda>child acc. case acc of Inl e \<Rightarrow> Inl e
            | Inr chs' \<Rightarrow> genchains n P (chs' @ [last chs @ [child] ]))
          (kids P (last (last chs))) (Inr chs) = Inr out"
  using assms by (auto simp: Let_def split: if_splits)

lemma genchains_shape:
  "genchains n P chs = Inr out \<Longrightarrow>
    \<exists>new. out = chs @ new \<and>
      (\<forall>c\<in>set new. \<exists>p. p \<noteq> [] \<and> c = last chs @ p \<and> is_path P (last (last chs) # p))"
proof (induction n arbitrary: chs out)
  case 0
  then show ?case by simp
next
  case (Suc n)
  let ?chain = "last chs"
  let ?I = "\<lambda>x. \<exists>new. x = chs @ new \<and>
      (\<forall>c\<in>set new. \<exists>p. p \<noteq> [] \<and> c = ?chain @ p \<and> is_path P (last ?chain # p))"
  note g = genchains_Suc_Inr [OF Suc.prems]
  have "?I out"
  proof (rule fold_sum_invariant [where I = ?I, OF g(3)])
    show "?I chs" by simp
  next
    fix c x y
    assume c: "c \<in> set (kids P (last ?chain))" and x: "?I x"
      and y: "genchains n P (x @ [?chain @ [c] ]) = Inr y"
    from x obtain new where new: "x = chs @ new"
      "\<forall>c\<in>set new. \<exists>p. p \<noteq> [] \<and> c = ?chain @ p \<and> is_path P (last ?chain # p)"
      by blast
    from Suc.IH [OF y] obtain new' where new': "y = (x @ [?chain @ [c] ]) @ new'"
      "\<forall>c'\<in>set new'. \<exists>p. p \<noteq> [] \<and> c' = (?chain @ [c]) @ p \<and> is_path P (c # p)"
      by auto
    have "\<exists>p. p \<noteq> [] \<and> c' = ?chain @ p \<and> is_path P (last ?chain # p)"
      if mem: "c' \<in> set (new @ [?chain @ [c] ] @ new')" for c'
    proof -
      from mem consider "c' \<in> set new" | "c' = ?chain @ [c]" | "c' \<in> set new'"
        by auto
      then show ?thesis
      proof cases
        case 1
        with new(2) show ?thesis by blast
      next
        case 2
        with c show ?thesis by (intro exI [of _ "[c]"]) simp
      next
        case 3
        with new'(2) obtain p where "p \<noteq> []" "c' = (?chain @ [c]) @ p" "is_path P (c # p)"
          by blast
        with c show ?thesis by (intro exI [of _ "c # p"]) simp
      qed
    qed
    moreover have "y = chs @ (new @ [?chain @ [c] ] @ new')"
      using new(1) new'(1) by simp
    ultimately show "?I y" by blast
  qed
  then show ?case .
qed

lemma genchains_depth:
  "genchains n P chs = Inr out \<Longrightarrow> \<exists>d. n = Suc d \<and> depth_le P d (last (last chs))"
proof (induction n arbitrary: chs out)
  case 0
  then show ?case by simp
next
  case (Suc n)
  note g = genchains_Suc_Inr [OF Suc.prems]
  have "depth_le P n (last (last chs))"
  proof (cases n)
    case 0
    have "kids P (last (last chs)) = []"
    proof (rule ccontr)
      assume "kids P (last (last chs)) \<noteq> []"
      then obtain c where "c \<in> set (kids P (last (last chs)))"
        by (cases "kids P (last (last chs))") auto
      from fold_sum_calls [OF g(3) this] 0 show False by simp
    qed
    with 0 show ?thesis by simp
  next
    case (Suc m)
    have "depth_le P m c" if "c \<in> set (kids P (last (last chs)))" for c
    proof -
      from fold_sum_calls [OF g(3) that]
      obtain x y where "genchains n P (x @ [last chs @ [c] ]) = Inr y" by blast
      from Suc.IH [OF this] Suc show ?thesis by simp
    qed
    with Suc show ?thesis by (simp add: list_all_iff)
  qed
  then show ?case by simp
qed

lemma genchains_total:
  "depth_le P d (last (last chs)) \<Longrightarrow> chs \<noteq> [] \<Longrightarrow> last chs \<noteq> [] \<Longrightarrow>
    \<exists>out. genchains (Suc d) P chs = Inr out"
proof (induction d arbitrary: chs)
  case 0
  then show ?case by simp
next
  case (Suc d)
  have "\<exists>y. genchains (Suc d) P (x @ [last chs @ [c] ]) = Inr y"
    if "c \<in> set (kids P (last (last chs)))" for c x
  proof (rule Suc.IH)
    from that Suc.prems(1) show "depth_le P d (last (last (x @ [last chs @ [c] ])))"
      by (simp add: list_all_iff)
  qed simp_all
  from fold_sum_total [of "kids P (last (last chs))"
      "\<lambda>c x. genchains (Suc d) P (x @ [last chs @ [c] ])" chs, OF this]
  show ?case using Suc.prems(2,3) by (simp add: Let_def)
qed

lemma depth_le_kid:
  "depth_le P d x \<Longrightarrow> y \<in> set (kids P x) \<Longrightarrow> \<exists>d'. d = Suc d' \<and> depth_le P d' y"
  by (cases d) (auto simp: list_all_iff)

lemma depth_path_member:
  "depth_le P d x \<Longrightarrow> is_path P (x # p) \<Longrightarrow> z \<in> set p \<Longrightarrow> \<exists>d'<d. depth_le P d' z"
proof (induction p arbitrary: x d)
  case Nil
  then show ?case by simp
next
  case (Cons y r)
  from Cons.prems(2) have y: "y \<in> set (kids P x)" and r: "is_path P (y # r)" by simp_all
  from depth_le_kid [OF Cons.prems(1) y] obtain d0 where d0: "d = Suc d0" "depth_le P d0 y"
    by blast
  show ?case
  proof (cases "z = y")
    case True
    with d0 show ?thesis by auto
  next
    case False
    with Cons.prems(3) have "z \<in> set r" by simp
    from Cons.IH [OF d0(2) r this] obtain d' where "d' < d0" "depth_le P d' z" by blast
    with d0(1) show ?thesis by (intro exI [of _ d']) simp
  qed
qed

lemma depth_no_cycle:
  "depth_le P d x \<Longrightarrow> is_path P (x # p) \<Longrightarrow> x \<notin> set p"
proof (induction d rule: less_induct)
  case (less d)
  show ?case
  proof
    assume "x \<in> set p"
    from depth_path_member [OF less.prems this] obtain d' where "d' < d" "depth_le P d' x"
      by blast
    from less.IH [OF this less.prems(2)] \<open>x \<in> set p\<close> show False by simp
  qed
qed

lemma depth_path_distinct:
  "depth_le P d x \<Longrightarrow> is_path P (x # p) \<Longrightarrow> distinct (x # p)"
proof (induction p arbitrary: x d)
  case Nil
  then show ?case by simp
next
  case (Cons y r)
  from Cons.prems(2) have y: "y \<in> set (kids P x)" and r: "is_path P (y # r)" by simp_all
  from depth_le_kid [OF Cons.prems(1) y] obtain d0 where "depth_le P d0 y" by blast
  from Cons.IH [OF this r] depth_no_cycle [OF Cons.prems] show ?case by simp
qed

text \<open>
  Claim C6. Whenever the enumeration from a seed returns, no chain of the result
  contains a nuclide twice: a repeated nuclide lies on a cycle of filtered children, and
  on a cycle the recursion exceeds every recursion limit.
\<close>

theorem genchains_no_repeat:
  "genchains n P [ [seed] ] = Inr out \<Longrightarrow> c \<in> set out \<Longrightarrow> distinct c"
proof -
  assume g: "genchains n P [ [seed] ] = Inr out" and c: "c \<in> set out"
  from genchains_depth [OF g] obtain d where d: "depth_le P d seed" by auto
  from genchains_shape [OF g] obtain new where new: "out = [ [seed] ] @ new"
    "\<forall>c\<in>set new. \<exists>p. p \<noteq> [] \<and> c = [seed] @ p \<and> is_path P (seed # p)"
    by auto
  from c new(1) consider "c = [seed]" | "c \<in> set new" by auto
  then show "distinct c"
  proof cases
    case 1
    then show ?thesis by simp
  next
    case 2
    with new(2) obtain p where "c = seed # p" "is_path P (seed # p)" by auto
    with depth_path_distinct [OF d] show ?thesis by simp
  qed
qed

theorem genchains_no_repeat_witness:
  "genchains 3 sample [ [1] ] = Inr [ [1], [1, 2], [1, 2, 3] ] \<and> [1, 2, 3] \<in> set [ [1], [1, 2], [1, 2, 3 :: int] ]
    \<and> distinct [1, 2, 3 :: int]"
proof -
  have g: "genchains 3 sample [ [1] ] = Inr [ [1], [1, 2], [1, 2, 3] ]"
    by (simp add: eval_nat_numeral sample_def kids_def decay_children_def
        wrap_decay_children_def special_cases_dc_def)
  have m: "[1, 2, 3] \<in> set [ [1], [1, 2], [1, 2, 3 :: int] ]" by simp
  from g m genchains_no_repeat [OF g m] show ?thesis by blast
qed

subsection \<open>What a call appends\<close>

lemma genchains_grows:
  assumes "genchains n P chs = Inr out" and "kids P (last (last chs)) \<noteq> []"
  shows "length chs < length out"
proof (cases n)
  case 0
  with assms(1) show ?thesis by simp
next
  case (Suc m)
  note g = genchains_Suc_Inr [OF assms(1) [unfolded Suc] ]
  from assms(2) obtain c cs where kc: "kids P (last (last chs)) = c # cs"
    by (cases "kids P (last (last chs))") auto
  let ?f = "\<lambda>child chs'. genchains m P (chs' @ [last chs @ [child] ])"
  show ?thesis
  proof (cases "?f c chs")
    case (Inl e)
    with g(3) kc show ?thesis by (simp add: fold_sum_Inl)
  next
    case (Inr y)
    from genchains_shape [OF Inr] have y: "length chs < length y" by auto
    from g(3) kc Inr
    have "fold (\<lambda>child acc. case acc of Inl e \<Rightarrow> Inl e | Inr chs' \<Rightarrow> ?f child chs') cs (Inr y)
        = Inr out"
      by simp
    then show ?thesis
    proof (rule fold_sum_invariant [where I = "\<lambda>x. length chs < length x", OF _ y])
      fix c' x z
      assume "length chs < length x" "?f c' x = Inr z"
      with genchains_shape [of m P "x @ [last chs @ [c'] ]" z] show "length chs < length z"
        by auto
    qed
  qed
qed

lemma cyclic_kids: "kids cyclic 1 = [2]" "kids cyclic 2 = [1]"
  by (simp_all add: cyclic_def kids_def decay_children_def wrap_decay_children_def
      special_cases_dc_def)

lemma cyclic_depth: "\<not> depth_le cyclic d 1 \<and> \<not> depth_le cyclic d 2"
  by (induction d) (simp_all add: cyclic_kids)

text \<open>
  Claim C10. A call that returns was given a non-empty list, returns a list that starts
  with the whole input list, so that every input chain (the seed chain among them) is in
  the result, and every chain it has appended extends the last input chain by at least
  one nuclide.
\<close>

theorem genchains_extends:
  "genchains n P chs = Inr out \<Longrightarrow>
    chs \<noteq> [] \<and> prefix chs out \<and> set chs \<subseteq> set out \<and>
    (\<forall>c\<in>set (drop (length chs) out). strict_prefix (last chs) c)"
proof -
  assume g: "genchains n P chs = Inr out"
  from g have ne: "chs \<noteq> []" by (cases n) (auto split: if_splits)
  from genchains_shape [OF g] obtain new where new: "out = chs @ new"
    "\<forall>c\<in>set new. \<exists>p. p \<noteq> [] \<and> c = last chs @ p \<and> is_path P (last (last chs) # p)"
    by blast
  from new(2) have "\<forall>c\<in>set new. strict_prefix (last chs) c"
    by (auto simp: strict_prefix_def)
  with ne new(1) show ?thesis by auto
qed

theorem genchains_extends_witness:
  "genchains 3 sample [ [1] ] = Inr [ [1], [1, 2], [1, 2, 3] ] \<and>
    [ [1 :: int] ] \<noteq> [] \<and> prefix [ [1] ] [ [1], [1, 2], [1, 2, 3 :: int] ] \<and>
    [1] \<in> set [ [1], [1, 2], [1, 2, 3 :: int] ] \<and>
    strict_prefix [1] [1, 2 :: int] \<and> strict_prefix [1] [1, 2, 3 :: int]"
proof -
  have g: "genchains 3 sample [ [1] ] = Inr [ [1], [1, 2], [1, 2, 3] ]"
    by (simp add: eval_nat_numeral sample_def kids_def decay_children_def
        wrap_decay_children_def special_cases_dc_def)
  from g genchains_extends [OF g] show ?thesis by simp
qed

text \<open>
  Claim C7, as stated, fails: for two nuclides that are each the only filtered child of
  the other, the enumeration from one of them exceeds every recursion limit.
\<close>

theorem genchains_cyclic_never_returns: "\<not> genchains_returns cyclic 1"
proof
  assume "genchains_returns cyclic 1"
  then obtain n out where "genchains n cyclic [ [1] ] = Inr out"
    by (auto simp: genchains_returns_def)
  from genchains_depth [OF this] cyclic_depth show False by auto
qed

text \<open>
  Claim C7, amended. With \<open>d + 1\<close> nested calls allowed, the enumeration from a seed
  returns exactly when no sequence of filtered children from the seed has more than \<open>d\<close>
  steps; and a call that returns has appended nothing exactly when the last nuclide of
  the last chain has no filtered child.
\<close>

theorem genchains_returns_iff_depth:
  "((\<exists>out. genchains (Suc d) P [ [seed] ] = Inr out) \<longleftrightarrow> depth_le P d seed) \<and>
   (genchains (Suc d) P chs = Inr out \<longrightarrow> (out = chs \<longleftrightarrow> kids P (last (last chs)) = []))"
proof (intro conjI iffI impI)
  assume "\<exists>out. genchains (Suc d) P [ [seed] ] = Inr out"
  then obtain out where "genchains (Suc d) P [ [seed] ] = Inr out" ..
  from genchains_depth [OF this] show "depth_le P d seed" by simp
next
  assume "depth_le P d seed"
  with genchains_total [of P d "[ [seed] ]"] show "\<exists>out. genchains (Suc d) P [ [seed] ] = Inr out"
    by simp
next
  assume "genchains (Suc d) P chs = Inr out" "out = chs"
  with genchains_grows [of "Suc d" P chs out] show "kids P (last (last chs)) = []"
    by auto
next
  assume "genchains (Suc d) P chs = Inr out" "kids P (last (last chs)) = []"
  then show "out = chs" by (simp add: Let_def split: if_splits)
qed

theorem genchains_returns_iff_depth_witness:
  "depth_le sample 2 1 \<and> genchains (Suc 2) sample [ [1] ] = Inr [ [1], [1, 2], [1, 2, 3] ] \<and>
   kids sample 1 \<noteq> [] \<and> [ [1], [1, 2], [1, 2, 3] ] \<noteq> [ [1 :: int] ] \<and>
   kids sample 3 = [] \<and> genchains (Suc 2) sample [ [1, 2, 3] ] = Inr [ [1, 2, 3] ] \<and>
   \<not> depth_le sample 1 1 \<and> genchains (Suc 1) sample [ [1] ] = Inl RecursionError"
proof -
  have k: "kids sample 1 = [2]" "kids sample 2 = [3]" "kids sample 3 = []"
    by (simp_all add: sample_def kids_def decay_children_def
        wrap_decay_children_def special_cases_dc_def)
  have g: "genchains (Suc 2) sample [ [1] ] = Inr [ [1], [1, 2], [1, 2, 3] ]"
    by (simp add: eval_nat_numeral k)
  have g3: "genchains (Suc 2) sample [ [1, 2, 3] ] = Inr [ [1, 2, 3] ]"
    by (simp add: eval_nat_numeral k)
  have g1: "genchains (Suc 1) sample [ [1] ] = Inl RecursionError"
    by (simp add: eval_nat_numeral k)
  have d: "depth_le sample 2 1" "\<not> depth_le sample 1 1"
    by (simp_all add: eval_nat_numeral k)
  from genchains_returns_iff_depth [of 2 sample 1 "[ [1] ]" "[ [1], [1, 2], [1, 2, 3] ]"]
    g g3 g1 d k
  show ?thesis by simp
qed

section \<open>Properties of the coefficient solver\<close>

lemmas k_a_defs = k_a_def amplitudes_def ci_def cij_def prod_axis0_def set_diagonal_def
  cij_ratio_def ends_stable_def fsub_def fprod_def gamma_def final_mask_def hl_mask_def
  fsum_def fgt_def select_def

lemmas sample_defs = sample_def branch_ratio_def wrap_branch_ratio_def special_cases_br_def

lemma ln2_facts: "ln (2::real) \<noteq> 0" "0 < ln (2::real)" "ln (2::real) \<noteq> 1"
  using ln_2_less_1 by simp_all

subsection \<open>Selection by a mask\<close>

lemma length_select:
  "length msk = length xs \<Longrightarrow> length (select msk xs) = length (filter id msk)"
proof (induction msk arbitrary: xs)
  case Nil
  then show ?case by (simp add: select_def)
next
  case (Cons b msk)
  then obtain x xs' where "xs = x # xs'" by (cases xs) auto
  with Cons show ?case by (auto simp: select_def)
qed

lemma select_all: "length xs = n \<Longrightarrow> select (replicate n True) xs = xs"
proof (induction xs arbitrary: n)
  case Nil
  then show ?case by (simp add: select_def)
next
  case (Cons x xs)
  then obtain m where "n = Suc m" "length xs = m" by (cases n) auto
  with Cons.IH [of m] show ?case by (simp add: select_def)
qed

lemma select_append:
  "length m1 = length x1 \<Longrightarrow> select (m1 @ m2) (x1 @ x2) = select m1 x1 @ select m2 x2"
  by (simp add: select_def)

lemma last_select:
  assumes "length msk = length xs" "xs \<noteq> []" "last msk"
  shows "last (select msk xs) = last xs"
proof -
  from assms have "msk \<noteq> []" by auto
  then have m: "msk = butlast msk @ [True]" using assms(3)
    by (metis append_butlast_last_id)
  from assms(2) have x: "xs = butlast xs @ [last xs]" by simp
  have "select (butlast msk @ [True]) (butlast xs @ [last xs])
      = select (butlast msk) (butlast xs) @ select [True] [last xs]"
    using assms(1) by (intro select_append) simp
  with m x have "select msk xs = select (butlast msk) (butlast xs) @ [last xs]"
    by (simp add: select_def)
  then show ?thesis by simp
qed

lemma length_hl_mask: "hl \<noteq> [] \<Longrightarrow> length (hl_mask st hl) = length hl"
  by (simp add: hl_mask_def)

lemma length_final_mask: "hl \<noteq> [] \<Longrightarrow> length (final_mask st hl) = length hl"
  by (simp add: final_mask_def Let_def length_hl_mask)

lemma final_mask_count: "2 \<le> length hl \<Longrightarrow> 2 \<le> length (filter id (final_mask st hl))"
  by (simp add: final_mask_def Let_def)

lemma last_final_mask: "hl \<noteq> [] \<Longrightarrow> last (final_mask True hl)"
  by (simp add: final_mask_def Let_def hl_mask_def)

lemma length_ci: "length (ci dc) = length dc"
  by (simp add: ci_def prod_axis0_def cij_def set_diagonal_def cij_ratio_def)

lemma length_amplitudes: "length (amplitudes dc) = length dc"
  by (simp add: amplitudes_def length_ci)

lemma k_a_Some:
  assumes "k_a P chain = Inr (Some (k, a))"
  shows "chain \<noteq> []"
    and "k = select (final_mask (ends_stable (map (decay_const P) chain)) (map (half_life P) chain))
            (map (\<lambda>x. fmul x (gamma P chain)) (amplitudes (map (decay_const P) chain)))"
    and "a = select (final_mask (ends_stable (map (decay_const P) chain)) (map (half_life P) chain))
            (map (fdiv (Fin (- 1))) (map (half_life P) chain))"
  using assms by (auto simp: k_a_def Let_def split: if_splits)

subsection \<open>Evaluation on the sample data\<close>

lemma k_a_sample_123:
  "k_a sample [1, 2, 3] =
    Inr (Some ([Fin (- 2), Fin 1, Fin 1], [Fin (- (1 / ln 2)), Fin (- (2 / ln 2)), Fin 0]))"
  by (simp add: k_a_defs sample_defs upt_rec [of 0] upt_rec [of 1] upt_rec [of 2] Let_def
      ln2_facts)

lemma k_a_sample_12:
  "k_a sample [1, 2] =
    Inr (Some ([Fin 1, Fin (- 1)], [Fin (- (1 / ln 2)), Fin (- (2 / ln 2))]))"
  by (simp add: k_a_defs sample_defs upt_rec [of 0] upt_rec [of 1] Let_def ln2_facts)

lemma k_a_longlived_123:
  "k_a longlived [1, 2, 3] =
    Inr (Some ([Fin (1000000000 / 999999999), Fin (- (1000000000 / 499999999)),
                Fin (500000000000000000 / 499999998500000001)],
               [Fin (- (1 / ln 2)), Fin (- (1 / (ln 2 * 2))),
                Fin (- (1 / (ln 2 * 1000000000)))]))"
  by (simp add: k_a_defs longlived_def branch_ratio_def wrap_branch_ratio_def
      special_cases_br_def upt_rec [of 0] upt_rec [of 1] upt_rec [of 2] Let_def ln2_facts)

lemma hl_mask_longlived:
  "hl_mask (ends_stable (map (decay_const longlived) [1, 2, 3]))
      (map (half_life longlived) [1, 2, 3]) = [False, False, True]"
  by (simp add: longlived_def ends_stable_def hl_mask_def fsum_def fgt_def ln2_facts)

lemma k_a_cyclic_12: "k_a cyclic [1, 2] = Inr None"
  by (simp add: k_a_defs cyclic_def upt_rec [of 0] upt_rec [of 1] Let_def)

subsection \<open>The matrix of ratios\<close>

lemma fmul_one_right: "fmul x (Fin 1) = x"
  by (cases x) simp_all

lemma cij_row:
  assumes "i < length dc"
  shows "cij dc ! i =
    (if ends_stable dc \<and> i = length dc - 1 then map (fdiv (Fin (- 1))) dc
     else map (\<lambda>dj. fdiv (dc ! i) (fsub (dc ! i) dj)) dc)[i := Fin 1]"
  using assms by (simp add: cij_def set_diagonal_def cij_ratio_def)

lemma cij_entry:
  assumes "i < length dc" "j < length dc"
  shows "cij dc ! i ! j =
    (if i = j then Fin 1
     else if ends_stable dc \<and> i = length dc - 1 then fdiv (Fin (- 1)) (dc ! j)
     else fdiv (dc ! i) (fsub (dc ! i) (dc ! j)))"
  using assms by (simp add: cij_row)

lemma length_cij: "length (cij dc) = length dc"
  by (simp add: cij_def set_diagonal_def cij_ratio_def)

lemma ci_entry:
  assumes "j < length dc"
  shows "ci dc ! j = fprod (map (\<lambda>i. cij dc ! i ! j) [0..<length dc])"
proof -
  have "map (\<lambda>row. row ! j) (cij dc) = map (\<lambda>i. cij dc ! i ! j) [0..<length (cij dc)]"
    by (simp add: map_equality_iff)
  with assms show ?thesis by (simp add: ci_def prod_axis0_def length_cij)
qed

lemma upt_split_at: "j < n \<Longrightarrow> [0..<n] = [0..<j] @ j # [Suc j..<n]"
  by (metis less_imp_le_nat upt_add_eq_append upt_conv_Cons zero_le le_add_diff_inverse)

lemma filter_upt_neq: "j < n \<Longrightarrow> filter (\<lambda>i. i \<noteq> j) [0..<n] = [0..<j] @ [Suc j..<n]"
proof -
  assume j: "j < n"
  have "filter (\<lambda>i. i \<noteq> j) [0..<j] = [0..<j]" by (simp add: filter_id_conv)
  moreover have "filter (\<lambda>i. i \<noteq> j) [Suc j..<n] = [Suc j..<n]" by (simp add: filter_id_conv)
  ultimately show ?thesis by (simp add: upt_split_at [OF j])
qed

subsection \<open>Results\<close>

text \<open>
  Claim C2, as stated, fails: for the decay constants 1 and 2 of the chain \<open>1 \<rightarrow> 2\<close>
  of the sample data, the coefficients that the solver computes are not the products over
  the rows of the matrix.
\<close>

theorem ci_not_row_product:
  "ci (map (decay_const sample) [1, 2]) \<noteq> ci_by_rows (map (decay_const sample) [1, 2])"
  by (simp add: ci_by_rows_def k_a_defs sample_def upt_rec [of 0] upt_rec [of 1])

text \<open>
  Claim C2, amended. For a chain with decay constants \<open>dc\<close>, the matrix has 1 on the
  diagonal, \<open>-1 / dc\<^sub>j\<close> in column \<open>j\<close> of the last row when the end of the chain is
  stable, and \<open>dc\<^sub>i / (dc\<^sub>i - dc\<^sub>j)\<close> elsewhere; coefficient \<open>j\<close> is the product
  over column \<open>j\<close> of the matrix, which is also the product with the diagonal entry left
  out.
\<close>

theorem ci_column_product:
  assumes "i < length dc" "j < length dc"
  shows "cij dc ! i ! j =
      (if i = j then Fin 1
       else if ends_stable dc \<and> i = length dc - 1 then fdiv (Fin (- 1)) (dc ! j)
       else fdiv (dc ! i) (fsub (dc ! i) (dc ! j))) \<and>
    ci dc ! j = fprod (map (\<lambda>i. cij dc ! i ! j) [0..<length dc]) \<and>
    ci dc ! j = fprod (map (\<lambda>i. cij dc ! i ! j) (filter (\<lambda>i. i \<noteq> j) [0..<length dc]))"
proof -
  have d: "cij dc ! j ! j = Fin 1" using assms(2) by (simp add: cij_entry)
  have "fprod (map (\<lambda>i. cij dc ! i ! j) [0..<length dc])
      = fprod (map (\<lambda>i. cij dc ! i ! j) (filter (\<lambda>i. i \<noteq> j) [0..<length dc]))"
    unfolding filter_upt_neq [OF assms(2)] fprod_def
    by (subst upt_split_at [OF assms(2)]) (simp add: d fmul_one_right)
  with cij_entry [OF assms] ci_entry [OF assms(2)] show ?thesis by simp
qed

theorem ci_column_product_witness:
  "(0 :: nat) < length [Fin 1, Fin 2] \<and> (1 :: nat) < length [Fin 1, Fin 2] \<and>
    cij [Fin 1, Fin 2] ! 0 ! 1 = Fin (- 1) \<and> ci [Fin 1, Fin 2] ! 1 = Fin (- 1)"
proof -
  have l: "(0 :: nat) < length [Fin 1, Fin 2]" "(1 :: nat) < length [Fin 1, Fin 2]"
    by simp_all
  note t = ci_column_product [OF l]
  have e: "\<not> ends_stable [Fin 1, Fin 2]" by (simp add: ends_stable_def)
  have f: "filter (\<lambda>i. i \<noteq> 1) [0..<length [Fin 1, Fin 2] ] = [0 :: nat]"
    by (simp add: upt_rec [of 0] upt_rec [of 1] upt_rec [of "Suc 0"])
  from t e have a: "cij [Fin 1, Fin 2] ! 0 ! 1 = Fin (- 1)" by (simp add: fsub_def)
  from t have "ci [Fin 1, Fin 2] ! 1
      = fprod (map (\<lambda>i. cij [Fin 1, Fin 2] ! i ! 1) (filter (\<lambda>i. i \<noteq> 1) [0..<length [Fin 1, Fin 2] ]))"
    by blast
  also have "\<dots> = Fin (- 1)" unfolding f using a by (simp add: fprod_def)
  finally show ?thesis using a by simp
qed

text \<open>
  Claim C4. For a non-empty chain the solver returns the pair \<^verbatim>\<open>(None, None)\<close> exactly
  when a decay constant is not-a-number, or an amplitude (before the branch ratios are
  applied) is infinite, or the product of the branch ratios compares equal to zero; in
  every other case it returns a pair of arrays.
\<close>

theorem k_a_unsolvable_iff:
  assumes "chain \<noteq> []"
  shows "(k_a P chain = Inr None \<longleftrightarrow>
      list_ex isnan (map (decay_const P) chain) \<or>
      list_ex isinf (amplitudes (map (decay_const P) chain)) \<or>
      feq (gamma P chain) (Fin 0)) \<and>
    (k_a P chain \<noteq> Inr None \<longrightarrow> (\<exists>k a. k_a P chain = Inr (Some (k, a))))"
  using assms by (simp add: k_a_def Let_def)

theorem k_a_unsolvable_iff_witness:
  "[1, 2 :: int] \<noteq> [] \<and>
   k_a sample [1, 2] =
     Inr (Some ([Fin 1, Fin (- 1)], [Fin (- (1 / ln 2)), Fin (- (2 / ln 2))])) \<and>
   \<not> list_ex isnan (map (decay_const sample) [1, 2]) \<and>
   \<not> list_ex isinf (amplitudes (map (decay_const sample) [1, 2])) \<and>
   \<not> feq (gamma sample [1, 2]) (Fin 0) \<and>
   k_a cyclic [1, 2] = Inr None \<and>
   list_ex isinf (amplitudes (map (decay_const cyclic) [1, 2]))"
proof -
  have l: "[1, 2 :: int] \<noteq> []" by simp
  have c: "\<not> list_ex isnan (map (decay_const cyclic) [1, 2])"
    "\<not> feq (gamma cyclic [1, 2]) (Fin 0)"
    by (simp_all add: cyclic_def gamma_def fprod_def branch_ratio_def wrap_branch_ratio_def
        special_cases_br_def)
  from k_a_unsolvable_iff [OF l, of sample] k_a_sample_12
  have "\<not> list_ex isnan (map (decay_const sample) [1, 2]) \<and>
   \<not> list_ex isinf (amplitudes (map (decay_const sample) [1, 2])) \<and>
   \<not> feq (gamma sample [1, 2]) (Fin 0)"
    by simp
  moreover from k_a_unsolvable_iff [OF l, of cyclic] k_a_cyclic_12 c
  have "list_ex isinf (amplitudes (map (decay_const cyclic) [1, 2]))"
    by simp
  ultimately show ?thesis using l k_a_sample_12 k_a_cyclic_12 by simp
qed

text \<open>
  Claim C5. For a chain of at least two nuclides that the solver solves, both returned
  arrays have the same length, which is at least 2; when the half-life filter leaves
  fewer than two terms, the arrays are the unpruned ones; and when the end of the chain
  is stable, the last position is kept, so that the last returned amplitude and rate are
  those of the end of the chain.
\<close>

theorem k_a_pruning:
  assumes "2 \<le> length chain" and "k_a P chain = Inr (Some (k, a))"
    and "hl = map (half_life P) chain" and "dc = map (decay_const P) chain"
  shows "2 \<le> length k \<and> length a = length k \<and>
    (length (filter id (hl_mask (ends_stable dc) hl)) < 2 \<longrightarrow>
       k = map (\<lambda>x. fmul x (gamma P chain)) (amplitudes dc) \<and> a = map (fdiv (Fin (- 1))) hl) \<and>
    (ends_stable dc \<longrightarrow>
       last (final_mask (ends_stable dc) hl) \<and>
       last k = fmul (last (amplitudes dc)) (gamma P chain) \<and>
       last a = fdiv (Fin (- 1)) (half_life P (last chain)))"
proof -
  let ?m = "final_mask (ends_stable dc) hl"
  let ?k = "map (\<lambda>x. fmul x (gamma P chain)) (amplitudes dc)"
  let ?a = "map (fdiv (Fin (- 1))) hl"
  from assms(1) have ne: "chain \<noteq> []" "hl \<noteq> []" and len: "2 \<le> length hl"
    using assms(3) by auto
  from k_a_Some(2,3) [OF assms(2)] assms(3,4) have k: "k = select ?m ?k" and a: "a = select ?m ?a"
    by simp_all
  have lm: "length ?m = length hl" using ne(2) by (rule length_final_mask)
  have lk: "length ?k = length hl" using assms(3,4) by (simp add: length_amplitudes)
  have "length k = length (filter id ?m)" using k lm lk by (simp add: length_select)
  moreover have "length a = length (filter id ?m)" using a lm by (simp add: length_select)
  moreover have "2 \<le> length (filter id ?m)" using len by (rule final_mask_count)
  moreover have "k = ?k \<and> a = ?a" if "length (filter id (hl_mask (ends_stable dc) hl)) < 2"
  proof -
    from that have "?m = replicate (length hl) True" by (simp add: final_mask_def)
    with k a lk show ?thesis by (simp add: select_all)
  qed
  moreover have "last ?m \<and> last k = fmul (last (amplitudes dc)) (gamma P chain) \<and>
      last a = fdiv (Fin (- 1)) (half_life P (last chain))" if st: "ends_stable dc"
  proof -
    from st ne have l: "last ?m" by (simp add: last_final_mask)
    have kne: "?k \<noteq> []" and ane: "?a \<noteq> []" and ampne: "amplitudes dc \<noteq> []"
      using lk ne length_amplitudes [of dc] assms(4) by auto
    from last_select [OF _ kne l] lm lk k have "last k = last ?k" by simp
    moreover from last_select [OF _ ane l] lm a have "last a = last ?a" by simp
    ultimately show ?thesis using l ampne ne assms(3) by (simp add: last_map)
  qed
  ultimately show ?thesis by simp
qed

theorem k_a_pruning_witness:
  "2 \<le> length [1, 2, 3 :: int] \<and>
   k_a longlived [1, 2, 3] =
     Inr (Some ([Fin (1000000000 / 999999999), Fin (- (1000000000 / 499999999)),
                 Fin (500000000000000000 / 499999998500000001)],
                [Fin (- (1 / ln 2)), Fin (- (1 / (ln 2 * 2))),
                 Fin (- (1 / (ln 2 * 1000000000)))])) \<and>
   hl_mask (ends_stable (map (decay_const longlived) [1, 2, 3]))
      (map (half_life longlived) [1, 2, 3]) = [False, False, True] \<and>
   map (\<lambda>x. fmul x (gamma longlived [1, 2, 3])) (amplitudes (map (decay_const longlived) [1, 2, 3]))
     = [Fin (1000000000 / 999999999), Fin (- (1000000000 / 499999999)),
        Fin (500000000000000000 / 499999998500000001)] \<and>
   k_a sample [1, 2, 3] =
     Inr (Some ([Fin (- 2), Fin 1, Fin 1], [Fin (- (1 / ln 2)), Fin (- (2 / ln 2)), Fin 0])) \<and>
   ends_stable (map (decay_const sample) [1, 2, 3]) \<and>
   last (final_mask (ends_stable (map (decay_const sample) [1, 2, 3]))
      (map (half_life sample) [1, 2, 3]))"
proof -
  have l: "2 \<le> length [1, 2, 3 :: int]" by simp
  have e: "ends_stable (map (decay_const sample) [1, 2, 3])"
    by (simp add: sample_def ends_stable_def)
  note a = k_a_pruning [OF l k_a_longlived_123 refl refl]
  note b = k_a_pruning [OF l k_a_sample_123 refl refl]
  from a hl_mask_longlived
  have "[Fin (1000000000 / 999999999), Fin (- (1000000000 / 499999999)),
         Fin (500000000000000000 / 499999998500000001)]
     = map (\<lambda>x. fmul x (gamma longlived [1, 2, 3])) (amplitudes (map (decay_const longlived) [1, 2, 3]))"
    by simp
  moreover from b e
  have "last (final_mask (ends_stable (map (decay_const sample) [1, 2, 3]))
      (map (half_life sample) [1, 2, 3]))"
    by blast
  ultimately show ?thesis using l e k_a_longlived_123 k_a_sample_123 hl_mask_longlived
    by simp
qed

subsection \<open>A parent with a stable daughter\<close>

lemma k_a_parent_stable:
  assumes "half_life P p = Fin h" "h \<noteq> 0" "decay_const P p = Fin lam" "lam \<noteq> 0"
    "half_life P d = PInf" "decay_const P d = Fin 0" "branch_ratio P p d = Fin g" "g \<noteq> 0"
  shows "k_a P [p, d] = Inr (Some ([Fin (- g), Fin g], [Fin (- 1 / h), Fin 0]))"
  using assms by (simp add: k_a_defs upt_rec [of 0] upt_rec [of 1] Let_def)

lemma exp2_terms_single: "exp2_terms [(1, - 1 / h)] t = exp (- (ln 2 / h) * t)"
  by (simp add: exp2_terms_def powr_def field_simps)

lemma exp2_terms_pair:
  "exp2_terms [(- g, - 1 / h), (g, 0)] t = g * (1 - exp (- (ln 2 / h) * t))"
  by (simp add: exp2_terms_def powr_def field_simps)

lemma two_over_ln2: "2 / ln 2 \<noteq> (2 :: real)"
  using ln2_facts by (simp add: field_simps)

lemma k_a_sample_23:
  "k_a sample [2, 3] = Inr (Some ([Fin (- 1), Fin 1], [Fin (- (2 / ln 2)), Fin 0]))"
  using k_a_parent_stable [of sample 2 "ln 2 / 2" 2 3 1]
  by (simp add: sample_defs ln2_facts)

lemmas expr_defs = chainexpr_def chain_term_def kexpexpr_def EXP_EXPR_def KEXP_EXPR_def
  CHAIN_EXPR_def

text \<open>
  Claim C1. Let the parent \<open>p\<close> have the half-life \<open>h\<close> and the decay constant
  \<open>ln 2 / h\<close>, let the daughter \<open>d\<close> be stable and let the branch ratio from \<open>p\<close> to
  \<open>d\<close> be \<open>g > 0\<close>. Then the solver returns the amplitudes \<open>-g, g\<close>, that is
  \<open>-1, 1\<close> scaled by the branch ratio, with the rates \<open>-1 / h, 0\<close>; the expression of
  the chain \<open>p\<close> alone is the single term \<^verbatim>\<open>exp2(a*t)\<close> with \<open>a = -1 / h\<close>, whose
  value is \<open>exp (- (ln 2 / h) t)\<close>; and the expression of the chain \<open>p, d\<close> is the sum of
  the two terms, whose value is \<open>g (1 - exp (- (ln 2 / h) t))\<close>.
\<close>

theorem two_species_chain:
  assumes "0 < h" and "half_life P p = Fin h" and "decay_const P p = Fin (ln 2 / h)"
    and "half_life P d = PInf" and "decay_const P d = Fin 0"
    and "branch_ratio P p d = Fin g" and "0 < g"
  shows "k_a P [p, d] = Inr (Some ([Fin (- g), Fin g], [Fin (- 1 / h), Fin 0])) \<and>
    chainexpr fmt P [p] = Inr (Some (''(it->second) * (exp2('' @ fmt (Fin (- 1 / h)) @ ''*t))'')) \<and>
    chainexpr fmt P [p, d] = Inr (Some (''(it->second) * ('' @
        fmt (Fin (- g)) @ ''*exp2('' @ fmt (Fin (- 1 / h)) @ ''*t) + '' @
        (if g = 1 then ''1.0'' else fmt (Fin g) @ ''*exp2('' @ fmt (Fin 0) @ ''*t)'') @ '')'')) \<and>
    exp2_terms [(1, - 1 / h)] t = exp (- (ln 2 / h) * t) \<and>
    exp2_terms [(- g, - 1 / h), (g, 0)] t = g * (1 - exp (- (ln 2 / h) * t))"
proof -
  from assms(1) have h: "h \<noteq> 0" and l: "ln 2 / h \<noteq> 0" by simp_all
  from assms(7) have g: "g \<noteq> 0" by simp
  have k: "k_a P [p, d] = Inr (Some ([Fin (- g), Fin g], [Fin (- 1 / h), Fin 0]))"
    by (rule k_a_parent_stable [OF assms(2) h assms(3) l assms(4,5,6) g])
  have c1: "chainexpr fmt P [p] =
      Inr (Some (''(it->second) * (exp2('' @ fmt (Fin (- 1 / h)) @ ''*t))''))"
    using assms(2) h by (simp add: expr_defs)
  have c2: "chainexpr fmt P [p, d] = Inr (Some (''(it->second) * ('' @
        fmt (Fin (- g)) @ ''*exp2('' @ fmt (Fin (- 1 / h)) @ ''*t) + '' @
        (if g = 1 then ''1.0'' else fmt (Fin g) @ ''*exp2('' @ fmt (Fin 0) @ ''*t)'') @ '')''))"
    using k assms(7) by (simp add: expr_defs)
  have e1: "exp2_terms [(1, - 1 / h)] t = exp (- (ln 2 / h) * t)"
    by (rule exp2_terms_single)
  have e2: "exp2_terms [(- g, - 1 / h), (g, 0)] t = g * (1 - exp (- (ln 2 / h) * t))"
    by (rule exp2_terms_pair)
  from k c1 c2 e1 e2 show ?thesis by blast
qed

theorem two_species_chain_witness:
  "(0 :: real) < ln 2 / 2 \<and> half_life sample 2 = Fin (ln 2 / 2) \<and>
    decay_const sample 2 = Fin (ln 2 / (ln 2 / 2)) \<and> half_life sample 3 = PInf \<and>
    decay_const sample 3 = Fin 0 \<and> branch_ratio sample 2 3 = Fin 1 \<and> (0 :: real) < 1 \<and>
    k_a sample [2, 3] = Inr (Some ([Fin (- 1), Fin 1], [Fin (- 1 / (ln 2 / 2)), Fin 0])) \<and>
    chainexpr (\<lambda>x. ''#'') sample [2] = Inr (Some ''(it->second) * (exp2(#*t))'') \<and>
    chainexpr (\<lambda>x. ''#'') sample [2, 3] = Inr (Some ''(it->second) * (#*exp2(#*t) + 1.0)'') \<and>
    exp2_terms [(- 1, - 1 / (ln 2 / 2)), (1, 0)] 1 = 1 * (1 - exp (- (ln 2 / (ln 2 / 2)) * 1))"
proof -
  have a: "(0 :: real) < ln 2 / 2" "half_life sample 2 = Fin (ln 2 / 2)"
    "decay_const sample 2 = Fin (ln 2 / (ln 2 / 2))" "half_life sample 3 = PInf"
    "decay_const sample 3 = Fin 0" "branch_ratio sample 2 3 = Fin 1" "(0 :: real) < 1"
    by (simp_all add: sample_defs ln2_facts)
  from two_species_chain [OF a, of "\<lambda>x. ''#''" 1] a show ?thesis by simp
qed

text \<open>
  Claim C3, as stated, fails: for the chain \<open>2 \<rightarrow> 3\<close> of the sample data, whose decay
  constants are \<open>ln 2\<close> divided by the half-lives, the solver succeeds and the rates it
  returns are not the negated decay constants.
\<close>

theorem rates_not_negated_decay_const:
  "k_a sample [2, 3] = Inr (Some ([Fin (- 1), Fin 1], [Fin (- (2 / ln 2)), Fin 0])) \<and>
   [Fin (- (2 / ln 2)), Fin 0] \<noteq> map (fneg \<circ> decay_const sample) [2, 3] \<and>
   decay_const sample 2 = fdiv (Fin (ln 2)) (half_life sample 2) \<and>
   decay_const sample 3 = fdiv (Fin (ln 2)) (half_life sample 3)"
  using k_a_sample_23 two_over_ln2 by (simp add: sample_def ln2_facts)

text \<open>
  Claim C3, amended. For every chain that the solver solves, the rate array is the array
  of the values \<open>-1 / half_life\<close> of the nuclides of the chain, restricted to the
  positions that the half-life filter keeps; every returned rate is \<open>-1 / half_life\<close> of
  a nuclide of the chain; and for a finite positive half-life \<open>h\<close> the term
  \<^verbatim>\<open>exp2(a*t)\<close> with this rate has the value \<open>exp (- (ln 2 / h) t)\<close>, the decay with
  the decay constant \<open>ln 2 / h\<close>.
\<close>

theorem k_a_rates:
  assumes "k_a P chain = Inr (Some (k, a))"
  shows "a = select (final_mask (ends_stable (map (decay_const P) chain)) (map (half_life P) chain))
              (map (\<lambda>n. fdiv (Fin (- 1)) (half_life P n)) chain) \<and>
    (\<forall>x\<in>set a. \<exists>n\<in>set chain. x = fdiv (Fin (- 1)) (half_life P n)) \<and>
    (half_life P n = Fin h \<and> 0 < h \<longrightarrow>
        fdiv (Fin (- 1)) (half_life P n) = Fin (- 1 / h) \<and>
        exp2_terms [(1, - 1 / h)] t = exp (- (ln 2 / h) * t))"
proof -
  let ?m = "final_mask (ends_stable (map (decay_const P) chain)) (map (half_life P) chain)"
  let ?r = "map (\<lambda>n. fdiv (Fin (- 1)) (half_life P n)) chain"
  from k_a_Some(3) [OF assms] have a: "a = select ?m ?r" by (simp add: comp_def)
  have "set (select ?m ?r) \<subseteq> set ?r"
    by (auto simp: select_def dest: set_zip_rightD)
  with a have "\<forall>x\<in>set a. \<exists>n\<in>set chain. x = fdiv (Fin (- 1)) (half_life P n)" by auto
  moreover have "half_life P n = Fin h \<and> 0 < h \<longrightarrow>
        fdiv (Fin (- 1)) (half_life P n) = Fin (- 1 / h) \<and>
        exp2_terms [(1, - 1 / h)] t = exp (- (ln 2 / h) * t)"
    using exp2_terms_single [of h t] by auto
  ultimately show ?thesis using a by blast
qed

theorem k_a_rates_witness:
  "k_a sample [2, 3] = Inr (Some ([Fin (- 1), Fin 1], [Fin (- (2 / ln 2)), Fin 0])) \<and>
   [Fin (- (2 / ln 2)), Fin 0] =
     select (final_mask (ends_stable (map (decay_const sample) [2, 3])) (map (half_life sample) [2, 3]))
       (map (\<lambda>n. fdiv (Fin (- 1)) (half_life sample n)) [2, 3]) \<and>
   half_life sample 2 = Fin (ln 2 / 2) \<and> (0 :: real) < ln 2 / 2 \<and>
   fdiv (Fin (- 1)) (half_life sample 2) = Fin (- 1 / (ln 2 / 2)) \<and>
   exp2_terms [(1, - 1 / (ln 2 / 2))] 1 = exp (- (ln 2 / (ln 2 / 2)) * 1)"
proof -
  have h: "half_life sample 2 = Fin (ln 2 / 2)" "(0 :: real) < ln 2 / 2"
    by (simp_all add: sample_def ln2_facts)
  note t = k_a_rates [OF k_a_sample_23, of 2 "ln 2 / 2" 1]
  from t have "[Fin (- (2 / ln 2)), Fin 0] =
     select (final_mask (ends_stable (map (decay_const sample) [2, 3])) (map (half_life sample) [2, 3]))
       (map (\<lambda>n. fdiv (Fin (- 1)) (half_life sample n)) [2, 3])"
    by blast
  moreover from t h have "fdiv (Fin (- 1)) (half_life sample 2) = Fin (- 1 / (ln 2 / 2)) \<and>
   exp2_terms [(1, - 1 / (ln 2 / 2))] 1 = exp (- (ln 2 / (ln 2 / 2)) * 1)"
    by blast
  ultimately show ?thesis using h k_a_sample_23 by blast
qed

section \<open>Properties of the correction layer\<close>

text \<open>No key occurs twice in a table, so that the list and the dictionary agree.\<close>

lemma special_cases_br_distinct: "distinct (map fst special_cases_br)"
  by (simp add: special_cases_br_def)

lemma special_cases_dc_distinct: "distinct (map fst special_cases_dc)"
  by (simp add: special_cases_dc_def)

lemma map_of_in_keys:
  assumes "k \<in> set (map fst tab)"
  shows "\<exists>v. map_of tab k = Some v \<and> (k, v) \<in> set tab"
proof -
  from assms have "map_of tab k \<noteq> None" by (simp add: map_of_eq_None_iff)
  then obtain v where "map_of tab k = Some v" by blast
  then show ?thesis by (blast dest: map_of_SomeD)
qed

text \<open>
  Claim C8. For a pair of nuclides that is a key of the table of branch ratios,
  \<^verbatim>\<open>branch_ratio\<close> returns the value that the table holds for the pair, whatever the
  provider is; for a nuclide that is a key of the table of children, \<^verbatim>\<open>decay_children\<close>
  returns the set that the table holds for it, whatever the provider is; for every other
  argument both return what the provider returns.
\<close>

theorem override_precedence:
  "((x, y) \<in> set (map fst special_cases_br) \<longrightarrow>
      ((x, y), branch_ratio P x y) \<in> set special_cases_br \<and>
      branch_ratio P x y = branch_ratio P' x y) \<and>
   ((x, y) \<notin> set (map fst special_cases_br) \<longrightarrow>
      branch_ratio P x y = data_branch_ratio P x y) \<and>
   (x \<in> set (map fst special_cases_dc) \<longrightarrow>
      (x, decay_children P x) \<in> set special_cases_dc \<and>
      decay_children P x = decay_children P' x) \<and>
   (x \<notin> set (map fst special_cases_dc) \<longrightarrow>
      decay_children P x = data_decay_children P x)"
proof (intro conjI impI)
  assume "(x, y) \<in> set (map fst special_cases_br)"
  from map_of_in_keys [OF this] obtain v where
    "map_of special_cases_br (x, y) = Some v" "((x, y), v) \<in> set special_cases_br" by blast
  then show "((x, y), branch_ratio P x y) \<in> set special_cases_br"
    and "branch_ratio P x y = branch_ratio P' x y"
    by (simp_all add: branch_ratio_def wrap_branch_ratio_def)
next
  assume "(x, y) \<notin> set (map fst special_cases_br)"
  then have "map_of special_cases_br (x, y) = None" by (simp add: map_of_eq_None_iff)
  then show "branch_ratio P x y = data_branch_ratio P x y"
    by (simp add: branch_ratio_def wrap_branch_ratio_def)
next
  assume "x \<in> set (map fst special_cases_dc)"
  from map_of_in_keys [OF this] obtain s where
    "map_of special_cases_dc x = Some s" "(x, s) \<in> set special_cases_dc" by blast
  then show "(x, decay_children P x) \<in> set special_cases_dc"
    and "decay_children P x = decay_children P' x"
    by (simp_all add: decay_children_def wrap_decay_children_def)
next
  assume "x \<notin> set (map fst special_cases_dc)"
  then have "map_of special_cases_dc x = None" by (simp add: map_of_eq_None_iff)
  then show "decay_children P x = data_decay_children P x"
    by (simp add: decay_children_def wrap_decay_children_def)
qed

theorem override_precedence_witness:
  "(451040000, 461040000) \<in> set (map fst special_cases_br) \<and>
   branch_ratio stub 451040000 461040000 = Fin 0.9955 \<and>
   branch_ratio stub 451040000 461040000 = branch_ratio sample 451040000 461040000 \<and>
   (1, 2) \<notin> set (map fst special_cases_br) \<and> branch_ratio stub 1 2 = Fin 42 \<and>
   451040000 \<in> set (map fst special_cases_dc) \<and>
   decay_children stub 451040000 = [441040000, 461040000] \<and>
   decay_children stub 451040000 = decay_children sample 451040000 \<and>
   1 \<notin> set (map fst special_cases_dc) \<and> decay_children stub 1 = [7]"
proof -
  note a = override_precedence [of 451040000 461040000 stub sample]
  note b = override_precedence [of 1 2 stub sample]
  have k: "(451040000, 461040000) \<in> set (map fst special_cases_br)"
    "(1, 2) \<notin> set (map fst special_cases_br)"
    "451040000 \<in> set (map fst special_cases_dc)" "1 \<notin> set (map fst special_cases_dc)"
    by (simp_all add: special_cases_br_def special_cases_dc_def)
  have v: "branch_ratio stub 451040000 461040000 = Fin 0.9955"
    "decay_children stub 451040000 = [441040000, 461040000]"
    by (simp_all add: branch_ratio_def wrap_branch_ratio_def special_cases_br_def
        decay_children_def wrap_decay_children_def special_cases_dc_def)
  have d: "data_branch_ratio stub 1 2 = Fin 42" "data_decay_children stub 1 = [7]"
    by (simp_all add: stub_def)
  from a b k v d show ?thesis by simp
qed

section \<open>Properties of the expression synthesizer\<close>

text \<open>
  Claim C9. \<^verbatim>\<open>kexpexpr\<close> writes \<^verbatim>\<open>exp2(a*t)\<close> for an amplitude equal to 1 and
  \<^verbatim>\<open>k*exp2(a*t)\<close> otherwise; for a chain of one nuclide with a nonzero half-life,
  \<^verbatim>\<open>chainexpr\<close> writes the single term \<^verbatim>\<open>exp2(a*t)\<close> with \<open>a = -1 / half_life\<close>
  and no amplitude; for a longer chain that the solver solves, it writes one term for
  each pair of the coefficient arrays, joined by \<^verbatim>\<open> + \<close>, where a term with amplitude
  equal to 1 and rate equal to 0 is the literal \<^verbatim>\<open>1.0\<close>; and for a chain that the solver
  does not solve it returns \<^verbatim>\<open>None\<close>.
\<close>

theorem chainexpr_terms:
  "kexpexpr fmt k_i a_i =
      (if feq k_i (Fin 1) then ''exp2('' @ fmt a_i @ ''*t)''
       else fmt k_i @ ''*exp2('' @ fmt a_i @ ''*t)'') \<and>
   (half_life P n \<noteq> Fin 0 \<longrightarrow>
      chainexpr fmt P [n] =
        Inr (Some (''(it->second) * (exp2('' @ fmt (fdiv (Fin (- 1)) (half_life P n)) @ ''*t))''))) \<and>
   (2 \<le> length chain \<and> k_a P chain = Inr (Some (k, a)) \<longrightarrow>
      chainexpr fmt P chain =
        Inr (Some (''(it->second) * ('' @
          join '' + '' (map2 (\<lambda>k_i a_i. if feq k_i (Fin 1) \<and> feq a_i (Fin 0) then ''1.0''
                                     else kexpexpr fmt k_i a_i) k a) @ '')''))) \<and>
   (2 \<le> length chain \<and> k_a P chain = Inr None \<longrightarrow> chainexpr fmt P chain = Inr None)"
proof (intro conjI impI)
  assume "2 \<le> length chain \<and> k_a P chain = Inr (Some (k, a))"
  moreover from this have "chain \<noteq> []" "length chain \<noteq> 1" by auto
  ultimately show "chainexpr fmt P chain =
        Inr (Some (''(it->second) * ('' @
          join '' + '' (map2 (\<lambda>k_i a_i. if feq k_i (Fin 1) \<and> feq a_i (Fin 0) then ''1.0''
                                     else kexpexpr fmt k_i a_i) k a) @ '')''))"
    by (simp add: chainexpr_def CHAIN_EXPR_def chain_term_def [abs_def])
next
  assume "2 \<le> length chain \<and> k_a P chain = Inr None"
  moreover from this have "chain \<noteq> []" "length chain \<noteq> 1" by auto
  ultimately show "chainexpr fmt P chain = Inr None" by (simp add: chainexpr_def)
qed (simp_all add: expr_defs)

theorem chainexpr_terms_witness:
  "kexpexpr (\<lambda>x. if x = Fin 1 then ''1.000000e+00'' else ''#'') (Fin 1) (Fin 2) = ''exp2(#*t)'' \<and>
   half_life sample 2 \<noteq> Fin 0 \<and>
   chainexpr (\<lambda>x. ''#'') sample [2] = Inr (Some ''(it->second) * (exp2(#*t))'') \<and>
   2 \<le> length [1, 2, 3 :: int] \<and>
   k_a sample [1, 2, 3] =
     Inr (Some ([Fin (- 2), Fin 1, Fin 1], [Fin (- (1 / ln 2)), Fin (- (2 / ln 2)), Fin 0])) \<and>
   chainexpr (\<lambda>x. ''#'') sample [1, 2, 3] =
     Inr (Some ''(it->second) * (#*exp2(#*t) + exp2(#*t) + 1.0)'') \<and>
   k_a cyclic [1, 2] = Inr None \<and> chainexpr (\<lambda>x. ''#'') cyclic [1, 2] = Inr None"
proof -
  have h: "half_life sample 2 \<noteq> Fin 0" by (simp add: sample_def ln2_facts)
  note a = chainexpr_terms [of "\<lambda>x. if x = Fin 1 then ''1.000000e+00'' else ''#''" "Fin 1" "Fin 2"]
  note b = chainexpr_terms [of "\<lambda>x. ''#''" _ _ sample 2 "[1, 2, 3]"
      "[Fin (- 2), Fin 1, Fin 1]" "[Fin (- (1 / ln 2)), Fin (- (2 / ln 2)), Fin 0]"]
  note c = chainexpr_terms [of "\<lambda>x. ''#''" _ _ cyclic _ "[1, 2]"]
  from a have "kexpexpr (\<lambda>x. if x = Fin 1 then ''1.000000e+00'' else ''#'') (Fin 1) (Fin 2)
      = ''exp2(#*t)''"
    by simp
  moreover from b h have "chainexpr (\<lambda>x. ''#'') sample [2] = Inr (Some ''(it->second) * (exp2(#*t))'')"
    by simp
  moreover from b k_a_sample_123 have "chainexpr (\<lambda>x. ''#'') sample [1, 2, 3] =
     Inr (Some ''(it->second) * (#*exp2(#*t) + exp2(#*t) + 1.0)'')"
    by (simp add: kexpexpr_def EXP_EXPR_def KEXP_EXPR_def)
  moreover from c k_a_cyclic_12 have "chainexpr (\<lambda>x. ''#'') cyclic [1, 2] = Inr None"
    by simp
  ultimately show ?thesis using h k_a_sample_123 k_a_cyclic_12 by simp
qed

end
